theory Spec2Isabelle
  imports Complex_Main "HOL-Library.Sublist" "HOL-Library.Log_Nat"
begin

section \<open>Python strings\<close>

text \<open>
  The service in \<^verbatim>\<open>backend/services/langchain_service.py\<close> works on Python \<^verbatim>\<open>str\<close>
  values. A text is modelled as a \<^typ>\<open>string\<close> whose characters stand for the code
  points 0 to 255, one character per code point, so \<^const>\<open>length\<close> is Python's \<^verbatim>\<open>len\<close>.
  The character predicates below are the ones CPython uses on that range.
\<close>

definition ord :: "char \<Rightarrow> nat" where
  "ord c = of_char c"

definition py_isspace :: "char \<Rightarrow> bool" where
  \<comment> \<open>\<^verbatim>\<open>str.isspace\<close>, also the class \<^verbatim>\<open>\s\<close> of \<^verbatim>\<open>re\<close> and what \<^verbatim>\<open>str.strip()\<close> removes\<close>
  "py_isspace c =
     (let n = ord c
      in (9 \<le> n \<and> n \<le> 13) \<or> (28 \<le> n \<and> n \<le> 32) \<or> n = 133 \<or> n = 160)"

definition py_isdigit :: "char \<Rightarrow> bool" where
  \<comment> \<open>the class \<^verbatim>\<open>\d\<close> of \<^verbatim>\<open>re\<close>: below code point 256 only the ten ASCII digits\<close>
  "py_isdigit c = (let n = ord c in 48 \<le> n \<and> n \<le> 57)"

definition lower_char :: "char \<Rightarrow> char" where
  "lower_char c =
     (let n = ord c
      in if (65 \<le> n \<and> n \<le> 90) \<or> (192 \<le> n \<and> n \<le> 222 \<and> n \<noteq> 215)
         then char_of (n + 32) else c)"

definition lower :: "string \<Rightarrow> string" where
  \<comment> \<open>\<^verbatim>\<open>str.lower()\<close>\<close>
  "lower s = map lower_char s"

definition upper_ascii :: "char \<Rightarrow> char" where
  "upper_ascii c = (let n = ord c in if 97 \<le> n \<and> n \<le> 122 then char_of (n - 32) else c)"

definition is_ascii_lower :: "char \<Rightarrow> bool" where
  "is_ascii_lower c = (let n = ord c in 97 \<le> n \<and> n \<le> 122)"

definition is_ascii_upper :: "char \<Rightarrow> bool" where
  "is_ascii_upper c = (let n = ord c in 65 \<le> n \<and> n \<le> 90)"

text \<open>
  \<^verbatim>\<open>str.title()\<close>: a cased character that follows an uncased one is put in upper case,
  a cased character that follows a cased one in lower case. The service calls it on the
  entries of its disease vocabulary only, which are ASCII; the model treats the ASCII
  letters as the cased characters.
\<close>

fun title_from :: "bool \<Rightarrow> string \<Rightarrow> string" where
  "title_from previous_is_cased [] = []"
| "title_from previous_is_cased (c # cs) =
     (if is_ascii_lower c
      then (if previous_is_cased then c else upper_ascii c) # title_from True cs
      else if is_ascii_upper c
      then (if previous_is_cased then lower_char c else c) # title_from True cs
      else c # title_from False cs)"

definition title :: "string \<Rightarrow> string" where
  "title s = title_from False s"

fun py_in :: "string \<Rightarrow> string \<Rightarrow> bool" where
  \<comment> \<open>\<^verbatim>\<open>sub in s\<close> on strings: \<^verbatim>\<open>sub\<close> occurs in \<^verbatim>\<open>s\<close> as a contiguous block\<close>
  "py_in sub [] = (sub = [])"
| "py_in sub (c # cs) = (prefix sub (c # cs) \<or> py_in sub cs)"

definition strip :: "string \<Rightarrow> string" where
  \<comment> \<open>\<^verbatim>\<open>str.strip()\<close> without argument\<close>
  "strip s = rev (dropWhile py_isspace (rev (dropWhile py_isspace s)))"

fun split_nl :: "string \<Rightarrow> string list" where
  \<comment> \<open>\<^verbatim>\<open>s.split('\n')\<close>: one more piece than there are line feeds\<close>
  "split_nl [] = [[]]"
| "split_nl (c # cs) =
     (if c = CHR 0x0A then [] # split_nl cs
      else (case split_nl cs of
              [] \<Rightarrow> [[c]]
            | l # ls \<Rightarrow> (c # l) # ls))"

section \<open>The regular expressions of the service\<close>

text \<open>
  The service uses five patterns, all built from literal characters, a greedy star or
  plus over one character class, and at most one capturing group \<^verbatim>\<open>(\d+)\<close>. The
  matcher follows the backtracking search of \<^verbatim>\<open>re\<close>: a greedy repetition first takes
  the next character and only gives it back when the rest of the pattern fails there.
\<close>

datatype item =
    Chr char                      \<comment> \<open>a literal character\<close>
  | Star "char \<Rightarrow> bool"           \<comment> \<open>\<^verbatim>\<open>X*\<close> over a character class\<close>
  | Plus "char \<Rightarrow> bool"           \<comment> \<open>\<^verbatim>\<open>X+\<close> over a character class\<close>
  | GroupPlus "char \<Rightarrow> bool"      \<comment> \<open>\<^verbatim>\<open>(X+)\<close>, the capturing group 1\<close>
  | GroupMore "char \<Rightarrow> bool"      \<comment> \<open>the rest of \<^verbatim>\<open>(X+)\<close> once it holds a character\<close>

definition chr_eq :: "bool \<Rightarrow> char \<Rightarrow> char \<Rightarrow> bool" where
  \<comment> \<open>a literal against a character of the text, under \<^verbatim>\<open>re.IGNORECASE\<close> or not\<close>
  "chr_eq ignorecase p c = (if ignorecase then lower_char c = lower_char p else c = p)"

fun re_run :: "bool \<Rightarrow> item list \<Rightarrow> string \<Rightarrow> string \<Rightarrow> string option" where
  "re_run ic [] s g = Some g"
| "re_run ic (Chr p # its) [] g = None"
| "re_run ic (Chr p # its) (c # cs) g =
     (if chr_eq ic p c then re_run ic its cs g else None)"
| "re_run ic (Star X # its) [] g = re_run ic its [] g"
| "re_run ic (Star X # its) (c # cs) g =
     (if X c
      then (case re_run ic (Star X # its) cs g of
              Some r \<Rightarrow> Some r
            | None \<Rightarrow> re_run ic its (c # cs) g)
      else re_run ic its (c # cs) g)"
| "re_run ic (Plus X # its) [] g = None"
| "re_run ic (Plus X # its) (c # cs) g =
     (if X c then re_run ic (Star X # its) cs g else None)"
| "re_run ic (GroupPlus X # its) [] g = None"
| "re_run ic (GroupPlus X # its) (c # cs) g =
     (if X c then re_run ic (GroupMore X # its) cs [c] else None)"
| "re_run ic (GroupMore X # its) [] g = re_run ic its [] g"
| "re_run ic (GroupMore X # its) (c # cs) g =
     (if X c
      then (case re_run ic (GroupMore X # its) cs (g @ [c]) of
              Some r \<Rightarrow> Some r
            | None \<Rightarrow> re_run ic its (c # cs) g)
      else re_run ic its (c # cs) g)"

definition re_match :: "bool \<Rightarrow> item list \<Rightarrow> string \<Rightarrow> string option" where
  \<comment> \<open>\<^verbatim>\<open>re.match\<close>: the pattern at position 0; the result is \<^verbatim>\<open>group(1)\<close>\<close>
  "re_match ic pattern s = re_run ic pattern s []"

fun re_search :: "bool \<Rightarrow> item list \<Rightarrow> string \<Rightarrow> string option" where
  \<comment> \<open>\<^verbatim>\<open>re.search\<close>: the leftmost position where the pattern matches\<close>
  "re_search ic pattern [] = re_match ic pattern []"
| "re_search ic pattern (c # cs) =
     (case re_match ic pattern (c # cs) of
        Some g \<Rightarrow> Some g
      | None \<Rightarrow> re_search ic pattern cs)"

definition lit :: "string \<Rightarrow> item list" where
  "lit s = map Chr s"

definition colon_or_space :: "char \<Rightarrow> bool" where
  \<comment> \<open>the class \<^verbatim>\<open>[:\s]\<close>\<close>
  "colon_or_space c = (c = CHR '':'' \<or> py_isspace c)"

definition confidence_patterns :: "item list list" where
  "confidence_patterns =
     [lit ''confidence'' @ [Star colon_or_space, GroupPlus py_isdigit, Chr CHR ''%''],
      [GroupPlus py_isdigit, Chr CHR ''%'', Star py_isspace] @ lit ''confidence'',
      lit ''confidence'' @ [Star colon_or_space, GroupPlus py_isdigit],
      [GroupPlus py_isdigit, Star py_isspace] @ lit ''percent'']"

definition numbered_pattern :: "item list" where
  \<comment> \<open>\<^verbatim>\<open>^\d+\.\<close>; the anchor holds at position 0, the only one \<^verbatim>\<open>re.match\<close> tries\<close>
  "numbered_pattern = [Plus py_isdigit, Chr CHR ''.'']"

section \<open>The response structurer\<close>

datatype py_error = ValueError | ProviderError

text \<open>
  Python's \<^verbatim>\<open>float\<close> is an IEEE 754 double. The values that arise here are never
  negative and never NaN: a double is modelled as the rational it denotes, or as positive
  infinity. \<^verbatim>\<open>round_double\<close> rounds a non-negative rational to the nearest double, ties
  to the even significand, as \<^verbatim>\<open>float\<close> of a digit string and the division of two
  doubles do; a value that rounds to 2 to the power 1024 or more overflows to infinity.
\<close>

datatype pyfloat = Finite rat | Infinity

definition ilog2 :: "rat \<Rightarrow> int" where
  \<comment> \<open>the integer \<open>e\<close> with \<open>2 powi e \<le> x < 2 powi (e + 1)\<close>, for \<open>x > 0\<close>\<close>
  "ilog2 x = (if 1 \<le> x then bitlen \<lfloor>x\<rfloor> - 1 else - bitlen (\<lceil>1 / x\<rceil> - 1))"

definition quantum :: "rat \<Rightarrow> rat" where
  \<comment> \<open>the distance between neighbouring doubles at \<open>x\<close>: 53 significant bits, and the
      fixed spacing of the subnormal numbers below \<open>2 powi (- 1022)\<close>\<close>
  "quantum x = 2 powi (max (ilog2 x) (- 1022) - 52)"

definition overflow_bound :: rat where
  "overflow_bound = 2 ^ 1024"

definition round_double :: "rat \<Rightarrow> pyfloat" where
  "round_double x =
     (if x = 0 then Finite 0
      else let q = quantum x;
               m = \<lfloor>x / q\<rfloor>;
               r = x / q - of_int m;
               n = (if r < 1 / 2 then m
                    else if 1 / 2 < r then m + 1
                    else if even m then m else m + 1);
               v = of_int n * q
           in if overflow_bound \<le> v then Infinity else Finite v)"

definition div_100 :: "pyfloat \<Rightarrow> pyfloat" where
  \<comment> \<open>\<^verbatim>\<open>x / 100\<close> on a double \<^verbatim>\<open>x\<close>: the quotient, rounded\<close>
  "div_100 x = (case x of Finite a \<Rightarrow> round_double (a / 100) | Infinity \<Rightarrow> Infinity)"

text \<open>
  \<^verbatim>\<open>float(s)\<close> on the text of group 1. On a non-empty run of digits it is the double
  nearest to the number the digits write. Any other argument is reported as
  \<^verbatim>\<open>ValueError\<close>.
\<close>

definition digit_value :: "char \<Rightarrow> nat" where
  "digit_value c = ord c - 48"

definition decimal_value :: "string \<Rightarrow> nat" where
  "decimal_value s = foldl (\<lambda>a c. 10 * a + digit_value c) 0 s"

definition py_float :: "string \<Rightarrow> py_error + pyfloat" where
  "py_float s =
     (if s \<noteq> [] \<and> list_all py_isdigit s
      then Inr (round_double (of_nat (decimal_value s)))
      else Inl ValueError)"

record analysis_result =
  analysis :: string
  disease_detected :: "string option"
  confidence_score :: "pyfloat option"
  recommended_actions :: "string list"
  local_remedies :: "string list"

definition diseases :: "string list" where
  "diseases =
     [''blight'', ''wilt'', ''rust'', ''mildew'', ''mosaic'', ''rot'', ''canker'',
      ''anthracnose'', ''leaf spot'', ''powdery mildew'', ''downy mildew'',
      ''bacterial'', ''fungal'', ''viral'', ''aphid'', ''thrips'', ''whitefly'']"

fun disease_loop :: "string list \<Rightarrow> string \<Rightarrow> analysis_result \<Rightarrow> analysis_result" where
  \<comment> \<open>\<^verbatim>\<open>for disease in diseases: if disease in response_lower: ...; break\<close>\<close>
  "disease_loop [] response_lower analysis_result = analysis_result"
| "disease_loop (disease # rest) response_lower analysis_result =
     (if py_in disease response_lower
      then analysis_result\<lparr>disease_detected := Some (title disease)\<rparr>
      else disease_loop rest response_lower analysis_result)"

fun confidence_loop ::
  "item list list \<Rightarrow> string \<Rightarrow> analysis_result \<Rightarrow> py_error + analysis_result" where
  \<comment> \<open>\<^verbatim>\<open>for pattern in confidence_patterns: ...; break\<close>\<close>
  "confidence_loop [] response_text analysis_result = Inr analysis_result"
| "confidence_loop (pattern # rest) response_text analysis_result =
     (case re_search True pattern response_text of
        Some group1 \<Rightarrow>
          (case py_float group1 of
             Inl e \<Rightarrow> Inl e
           | Inr v \<Rightarrow> Inr (analysis_result\<lparr>confidence_score := Some (div_100 v)\<rparr>))
      | None \<Rightarrow> confidence_loop rest response_text analysis_result)"

definition action_verbs :: "string list" where
  "action_verbs =
     [''spray'', ''apply'', ''use'', ''treat'', ''remove'', ''cut'', ''water'',
      ''fertilize'', ''prune'', ''harvest'', ''isolate'']"

definition remedy_terms :: "string list" where
  \<comment> \<open>the list tested on a line with an action verb\<close>
  "remedy_terms =
     [''neem'', ''organic'', ''local'', ''traditional'', ''natural'',
      ''turmeric'', ''garlic'', ''soap'', ''ash'']"

definition numbered_remedy_terms :: "string list" where
  \<comment> \<open>the list tested on a numbered line without an action verb\<close>
  "numbered_remedy_terms = [''neem'', ''organic'', ''local'']"

definition any_in :: "string list \<Rightarrow> string \<Rightarrow> bool" where
  \<comment> \<open>\<^verbatim>\<open>any(word in line.lower() for word in words)\<close>\<close>
  "any_in words line = list_ex (\<lambda>word. py_in word (lower line)) words"

fun line_loop ::
  "string list \<Rightarrow> string list \<times> string list \<Rightarrow> string list \<times> string list" where
  \<comment> \<open>\<^verbatim>\<open>for line in lines\<close>, on the pair \<^verbatim>\<open>(actions, remedies)\<close>\<close>
  "line_loop [] (actions, remedies) = (actions, remedies)"
| "line_loop (raw # rest) (actions, remedies) =
     (let line = strip raw
      in if line = [] then line_loop rest (actions, remedies)
         else if any_in action_verbs line
         then (if any_in remedy_terms line
               then line_loop rest (actions, remedies @ [strip line])
               else line_loop rest (actions @ [strip line], remedies))
         else if re_match False numbered_pattern line \<noteq> None \<and> length line > 10
         then (if any_in numbered_remedy_terms line
               then line_loop rest (actions, remedies @ [strip line])
               else line_loop rest (actions @ [strip line], remedies))
         else line_loop rest (actions, remedies))"

definition parse_body :: "string \<Rightarrow> py_error + analysis_result" where
  \<comment> \<open>the \<^verbatim>\<open>try\<close> block of \<^verbatim>\<open>_parse_image_analysis\<close>\<close>
  "parse_body response_text =
     (let analysis_result =
            \<lparr>analysis = response_text, disease_detected = None, confidence_score = None,
             recommended_actions = [], local_remedies = []\<rparr>;
          response_lower = lower response_text;
          analysis_result = disease_loop diseases response_lower analysis_result
      in case confidence_loop confidence_patterns response_text analysis_result of
           Inl e \<Rightarrow> Inl e
         | Inr analysis_result \<Rightarrow>
             (let lines = split_nl response_text;
                  (actions, remedies) = line_loop lines ([], [])
              in Inr (analysis_result
                       \<lparr>recommended_actions := take 5 actions,
                        local_remedies := take 3 remedies\<rparr>)))"

definition parse_fallback :: "string \<Rightarrow> analysis_result" where
  \<comment> \<open>the \<^verbatim>\<open>except Exception\<close> block\<close>
  "parse_fallback response_text =
     \<lparr>analysis = response_text, disease_detected = None, confidence_score = None,
      recommended_actions = [], local_remedies = []\<rparr>"

definition parse_image_analysis :: "string \<Rightarrow> analysis_result" where
  "parse_image_analysis response_text =
     (case parse_body response_text of
        Inr analysis_result \<Rightarrow> analysis_result
      | Inl e \<Rightarrow> parse_fallback response_text)"

section \<open>The suggestion heuristic\<close>

text \<open>
  \<^verbatim>\<open>_get_suggested_actions\<close>: the list \<^verbatim>\<open>suggestions\<close> starts empty, one branch of the
  \<^verbatim>\<open>if/elif\<close> chain extends it, and the function returns \<^verbatim>\<open>suggestions[:3]\<close>.
\<close>

definition get_suggested_actions :: "string \<Rightarrow> string list" where
  "get_suggested_actions message =
     (let message_lower = lower message;
          suggestions = [];
          suggestions =
            (if list_ex (\<lambda>word. py_in word message_lower)
                  [''disease'', ''spot'', ''yellow'', ''brown'', ''pest'', ''bug'', ''insect'']
             then suggestions @
                  [''Upload an image of the affected plant'',
                   ''Check market prices for your crop'',
                   ''Look for organic treatment options'']
             else if list_ex (\<lambda>word. py_in word message_lower)
                  [''price'', ''sell'', ''market'', ''mandi'']
             then suggestions @
                  [''Check current market prices'',
                   ''Find nearby mandis'',
                   ''Look for government schemes'']
             else if list_ex (\<lambda>word. py_in word message_lower)
                  [''subsidy'', ''scheme'', ''government'', ''loan'']
             then suggestions @
                  [''Search government schemes'',
                   ''Check eligibility criteria'',
                   ''Find application procedures'']
             else if list_ex (\<lambda>word. py_in word message_lower)
                  [''weather'', ''rain'', ''drought'', ''irrigation'']
             then suggestions @
                  [''Check weather forecasts'',
                   ''Look for drought-resistant varieties'',
                   ''Explore irrigation subsidies'']
             else suggestions @
                  [''Upload crop images for analysis'',
                   ''Check market prices'',
                   ''Explore government schemes''])
      in take 3 suggestions)"

text \<open>The four keyword sets and the five suggestion lists, named as the specification names them.\<close>

definition disease_pest_terms :: "string list" where
  "disease_pest_terms = [''disease'', ''spot'', ''yellow'', ''brown'', ''pest'', ''bug'', ''insect'']"

definition market_terms :: "string list" where
  "market_terms = [''price'', ''sell'', ''market'', ''mandi'']"

definition scheme_terms :: "string list" where
  "scheme_terms = [''subsidy'', ''scheme'', ''government'', ''loan'']"

definition weather_terms :: "string list" where
  "weather_terms = [''weather'', ''rain'', ''drought'', ''irrigation'']"

definition mentions :: "string list \<Rightarrow> string \<Rightarrow> bool" where
  "mentions terms message = list_ex (\<lambda>word. py_in word (lower message)) terms"

section \<open>The conversation context\<close>

text \<open>
  \<^verbatim>\<open>process_chat_message\<close> assembles the message list, awaits the chat model once and
  returns its answer with the suggestions. The three LangChain message classes are the
  constructors of the type of messages; a history entry is a \<^verbatim>\<open>ChatMessage.dict()\<close>.
\<close>

datatype message = SystemMessage string | HumanMessage string | AIMessage string

record chat_message =
  role :: string
  content :: string
  timestamp :: "string option"

record service =
  system_prompt :: string
  image_analysis_prompt :: string

record chat_result =
  response :: string
  conversation_id :: string
  suggested_actions :: "string list"

definition last_five :: "'a list \<Rightarrow> 'a list" where
  \<comment> \<open>the slice \<^verbatim>\<open>conversation_history[-5:]\<close>\<close>
  "last_five xs = drop (length xs - 5) xs"

fun history_loop :: "chat_message list \<Rightarrow> message list \<Rightarrow> message list" where
  \<comment> \<open>\<^verbatim>\<open>for msg in conversation_history[-5:]\<close>, on the list \<^verbatim>\<open>messages\<close>\<close>
  "history_loop [] messages = messages"
| "history_loop (msg # rest) messages =
     (if role msg = ''user''
      then history_loop rest (messages @ [HumanMessage (content msg)])
      else history_loop rest (messages @ [AIMessage (content msg)]))"

definition build_messages ::
  "service \<Rightarrow> string \<Rightarrow> chat_message list \<Rightarrow> string option \<Rightarrow> message list \<times> string" where
  \<comment> \<open>\<^verbatim>\<open>process_chat_message\<close> up to the call of the model: the list sent and the
      value of \<^verbatim>\<open>message\<close> at that point\<close>
  "build_messages self message conversation_history language =
     (let messages = [SystemMessage (system_prompt self)];
          messages = history_loop (last_five conversation_history) messages;
          message = (if language = Some ''kn''
                     then ''[Please respond in Kannada language] '' @ message
                     else message);
          messages = messages @ [HumanMessage message]
      in (messages, message))"

definition process_chat_message ::
  "service \<Rightarrow> (message list \<Rightarrow> py_error + string) \<Rightarrow> string \<Rightarrow> chat_message list \<Rightarrow>
   string option \<Rightarrow> py_error + chat_result" where
  "process_chat_message self ainvoke message conversation_history language =
     (let (messages, message) = build_messages self message conversation_history language
      in case ainvoke messages of
           Inl e \<Rightarrow> Inl e
         | Inr response_content \<Rightarrow>
             Inr \<lparr>response = response_content, conversation_id = ''default'',
                  suggested_actions = get_suggested_actions message\<rparr>)"

definition message_role :: "message \<Rightarrow> string" where
  \<comment> \<open>the role of a message: \<^verbatim>\<open>system\<close>, \<^verbatim>\<open>user\<close> or \<^verbatim>\<open>assistant\<close>\<close>
  "message_role m =
     (case m of
        SystemMessage c \<Rightarrow> ''system''
      | HumanMessage c \<Rightarrow> ''user''
      | AIMessage c \<Rightarrow> ''assistant'')"

definition history_message :: "chat_message \<Rightarrow> message" where
  \<comment> \<open>the message one pass of the history loop appends\<close>
  "history_message msg =
     (if role msg = ''user'' then HumanMessage (content msg) else AIMessage (content msg))"

section \<open>Notions used in the statements\<close>

fun has_group :: "item list \<Rightarrow> bool" where
  "has_group [] = False"
| "has_group (GroupPlus X # its) = True"
| "has_group (it # its) = has_group its"

fun groups_over :: "(char \<Rightarrow> bool) \<Rightarrow> item list \<Rightarrow> bool" where
  "groups_over D [] = True"
| "groups_over D (GroupPlus X # its) = (X = D \<and> groups_over D its)"
| "groups_over D (GroupMore X # its) = (X = D \<and> groups_over D its)"
| "groups_over D (it # its) = groups_over D its"

text \<open>
  The score the specification describes: the first pattern, in list order, that matches
  anywhere in the text gives its captured integer divided by 100, in the arithmetic of
  doubles.
\<close>

definition captured_score :: "string \<Rightarrow> pyfloat" where
  \<comment> \<open>\<^verbatim>\<open>float(group1) / 100\<close>\<close>
  "captured_score group1 = div_100 (round_double (of_nat (decimal_value group1)))"

fun first_confidence :: "item list list \<Rightarrow> string \<Rightarrow> pyfloat option" where
  "first_confidence [] response_text = None"
| "first_confidence (pattern # rest) response_text =
     (case re_search True pattern response_text of
        Some group1 \<Rightarrow> Some (captured_score group1)
      | None \<Rightarrow> first_confidence rest response_text)"

definition nonnegative :: "pyfloat \<Rightarrow> bool" where
  "nonnegative s = (case s of Finite v \<Rightarrow> 0 \<le> v | Infinity \<Rightarrow> True)"

definition in_unit_interval :: "pyfloat \<Rightarrow> bool" where
  \<comment> \<open>a double in the interval from 0 to 1\<close>
  "in_unit_interval s = (case s of Finite v \<Rightarrow> 0 \<le> v \<and> v \<le> 1 | Infinity \<Rightarrow> False)"

definition numbered :: "string \<Rightarrow> bool" where
  "numbered line = (re_match False numbered_pattern line \<noteq> None)"

text \<open>The two classes of lines, read off the branches of the line loop.\<close>

definition remedy_line :: "string \<Rightarrow> bool" where
  "remedy_line line =
     ((any_in action_verbs line \<and> any_in remedy_terms line) \<or>
      (\<not> any_in action_verbs line \<and> numbered line \<and> length line > 10 \<and>
       any_in numbered_remedy_terms line))"

definition action_line :: "string \<Rightarrow> bool" where
  "action_line line =
     ((any_in action_verbs line \<and> \<not> any_in remedy_terms line) \<or>
      (\<not> any_in action_verbs line \<and> numbered line \<and> length line > 10 \<and>
       \<not> any_in numbered_remedy_terms line))"

definition source_lines :: "string \<Rightarrow> string list" where
  \<comment> \<open>the lines of the text, stripped, the empty ones dropped\<close>
  "source_lines response_text =
     filter (\<lambda>line. line \<noteq> []) (map strip (split_nl response_text))"

section \<open>Evaluation rules\<close>

lemmas char_eval = ord_def lower_char_def upper_ascii_def is_ascii_lower_def
  is_ascii_upper_def py_isspace_def py_isdigit_def char_of_def bit_0

lemmas re_eval = confidence_patterns_def numbered_pattern_def lit_def re_match_def
  chr_eq_def colon_or_space_def char_eval

lemmas title_eval = title_def char_eval

lemmas line_eval = source_lines_def strip_def action_line_def remedy_line_def numbered_def
  any_in_def lower_def action_verbs_def remedy_terms_def numbered_remedy_terms_def re_eval

section \<open>The matcher\<close>

lemma re_run_group_class:
  "re_run ic its s g = Some r \<Longrightarrow> groups_over D its \<Longrightarrow> list_all D g \<Longrightarrow> list_all D r"
  by (induction ic its s g rule: re_run.induct) (auto split: if_splits option.splits)

lemma re_run_group_nonempty:
  "re_run ic its s g = Some r \<Longrightarrow> has_group its \<or> g \<noteq> [] \<Longrightarrow> r \<noteq> []"
  by (induction ic its s g rule: re_run.induct) (auto split: if_splits option.splits)

lemma re_search_is_match:
  "re_search ic p s = Some r \<Longrightarrow> \<exists>t. re_match ic p t = Some r"
  by (induction s) (auto split: option.splits)

lemma re_search_group:
  assumes "re_search ic p s = Some r" "has_group p" "groups_over D p"
  shows "r \<noteq> [] \<and> list_all D r"
proof -
  from assms(1) obtain t where t: "re_run ic p t [] = Some r"
    using re_search_is_match unfolding re_match_def by blast
  from re_run_group_nonempty[OF t] assms(2) have "r \<noteq> []" by simp
  moreover from re_run_group_class[OF t assms(3)] have "list_all D r" by simp
  ultimately show ?thesis by simp
qed

lemma re_search_skip:
  "(\<forall>i<length pre. re_match ic p (drop i (pre @ s)) = None) \<Longrightarrow>
   re_search ic p (pre @ s) = re_search ic p s"
proof (induction pre)
  case Nil
  then show ?case by simp
next
  case (Cons c pre)
  from Cons.prems have here: "re_match ic p (c # pre @ s) = None"
    by (metis append_Cons drop0 length_greater_0_conv list.distinct(1))
  have "\<forall>i<length pre. re_match ic p (drop i (pre @ s)) = None"
  proof (intro allI impI)
    fix i assume "i < length pre"
    then have "Suc i < length (c # pre)" by simp
    with Cons.prems have "re_match ic p (drop (Suc i) ((c # pre) @ s)) = None" by blast
    then show "re_match ic p (drop i (pre @ s)) = None" by simp
  qed
  with Cons.IH have "re_search ic p (pre @ s) = re_search ic p s" .
  with here show ?case by simp
qed

lemma confidence_patterns_groups:
  "p \<in> set confidence_patterns \<Longrightarrow> has_group p \<and> groups_over py_isdigit p"
  by (auto simp: confidence_patterns_def lit_def)

section \<open>Rounding to a double\<close>

lemma ilog2_ge1:
  assumes "1 \<le> x"
  shows "2 powi (ilog2 x) \<le> x \<and> x < 2 powi (ilog2 x + 1)"
proof -
  define n where "n = \<lfloor>x\<rfloor>"
  have n: "0 < n" using assms unfolding n_def by linarith
  from bitlen_bounds[OF n] have b: "2 ^ nat (bitlen n - 1) \<le> n" "n < 2 ^ nat (bitlen n)"
    by simp_all
  have pos: "0 < bitlen n" using n bitlen_eq_zero_iff[of n] bitlen_nonneg[of n] by linarith
  have e: "ilog2 x = bitlen n - 1" using assms by (simp add: ilog2_def n_def)
  have "(2::rat) powi (bitlen n - 1) = 2 ^ nat (bitlen n - 1)"
    using pos by (simp add: power_int_def)
  also have "\<dots> = of_int (2 ^ nat (bitlen n - 1))" by simp
  also have "\<dots> \<le> of_int n" using b(1) by (simp only: of_int_le_iff)
  also have "\<dots> \<le> x" unfolding n_def by simp
  finally have lo: "2 powi (ilog2 x) \<le> x" unfolding e .
  have "x < of_int (n + 1)" unfolding n_def by linarith
  also have "\<dots> \<le> of_int (2 ^ nat (bitlen n))" using b(2) by (simp only: of_int_le_iff)
  also have "\<dots> = (2::rat) powi (bitlen n)" using pos by (simp add: power_int_def)
  finally have hi: "x < 2 powi (ilog2 x + 1)" unfolding e by simp
  from lo hi show ?thesis by simp
qed

lemma ilog2_lt1:
  assumes "0 < x" "x < 1"
  shows "2 powi (ilog2 x) \<le> x \<and> x < 2 powi (ilog2 x + 1)"
proof -
  define N where "N = \<lceil>1 / x\<rceil>"
  define c where "c = bitlen (N - 1)"
  have y: "1 < 1 / x" using assms by simp
  then have N: "0 < N - 1" unfolding N_def by linarith
  from bitlen_bounds[OF N] have b: "2 ^ nat (c - 1) \<le> N - 1" "N - 1 < 2 ^ nat c"
    unfolding c_def by simp_all
  have pos: "0 < c" using N bitlen_eq_zero_iff[of "N - 1"] bitlen_nonneg[of "N - 1"] unfolding c_def by linarith
  have e: "ilog2 x = - c" using assms by (simp add: ilog2_def N_def c_def)
  have "1 / x \<le> of_int N" unfolding N_def by simp
  also have "\<dots> \<le> of_int (2 ^ nat c)" using b(2) by (simp only: of_int_le_iff)
  also have "\<dots> = (2::rat) ^ nat c" by simp
  finally have "1 / x \<le> 2 ^ nat c" .
  then have "1 / 2 ^ nat c \<le> x" using assms(1)
    by (simp add: field_simps)
  moreover have "(2::rat) powi (- c) = 1 / 2 ^ nat c"
    using pos by (simp add: power_int_def field_simps)
  ultimately have lo: "2 powi (ilog2 x) \<le> x" unfolding e by simp
  have "of_int (2 ^ nat (c - 1)) \<le> (of_int (N - 1) :: rat)" using b(1) by (simp only: of_int_le_iff)
  also have "\<dots> < 1 / x" unfolding N_def by linarith
  finally have "2 ^ nat (c - 1) < 1 / x" by simp
  then have "x < 1 / 2 ^ nat (c - 1)" using assms(1)
    by (simp add: field_simps)
  moreover have "(2::rat) powi (- c + 1) = 1 / 2 ^ nat (c - 1)"
    using pos by (cases "c = 1") (simp_all add: power_int_def field_simps nat_diff_distrib)
  ultimately have hi: "x < 2 powi (ilog2 x + 1)" unfolding e by simp
  from lo hi show ?thesis by simp
qed


lemma ilog2_bounds:
  "0 < x \<Longrightarrow> 2 powi (ilog2 x) \<le> x \<and> x < 2 powi (ilog2 x + 1)"
  using ilog2_ge1[of x] ilog2_lt1[of x] by (cases "1 \<le> x") auto

lemma ilog2_less: "0 < x \<Longrightarrow> x < 2 powi k \<Longrightarrow> ilog2 x < k"
proof (rule ccontr)
  assume x: "0 < x" "x < 2 powi k" and "\<not> ilog2 x < k"
  then have "(2::rat) powi k \<le> 2 powi (ilog2 x)"
    by (intro power_int_increasing) simp_all
  with ilog2_bounds[OF x(1)] x(2) show False by linarith
qed

lemma ilog2_ge: "0 < x \<Longrightarrow> 2 powi k \<le> x \<Longrightarrow> k \<le> ilog2 x"
proof (rule ccontr)
  assume x: "0 < x" "2 powi k \<le> x" and "\<not> k \<le> ilog2 x"
  then have "(2::rat) powi (ilog2 x + 1) \<le> 2 powi k"
    by (intro power_int_increasing) simp_all
  with ilog2_bounds[OF x(1)] x(2) show False by linarith
qed

lemma quantum_pos: "0 < quantum x"
  by (simp add: quantum_def)

lemma round_double_candidates:
  assumes "0 < x"
  shows "\<exists>n. \<lfloor>x / quantum x\<rfloor> \<le> n \<and> n \<le> \<lfloor>x / quantum x\<rfloor> + 1
             \<and> (of_int \<lfloor>x / quantum x\<rfloor> = x / quantum x \<longrightarrow> n = \<lfloor>x / quantum x\<rfloor>)
             \<and> round_double x =
                 (if overflow_bound \<le> of_int n * quantum x then Infinity
                  else Finite (of_int n * quantum x))"
proof -
  define m where "m = \<lfloor>x / quantum x\<rfloor>"
  define r where "r = x / quantum x - of_int m"
  define n where "n = (if r < 1 / 2 then m else if 1 / 2 < r then m + 1
            else if even m then m else m + 1)"
  have "round_double x =
      (if overflow_bound \<le> of_int n * quantum x then Infinity
       else Finite (of_int n * quantum x))"
    using assms unfolding round_double_def Let_def n_def r_def m_def by simp
  moreover have "m \<le> n" "n \<le> m + 1" unfolding n_def by simp_all
  moreover have "of_int m = x / quantum x \<longrightarrow> n = m"
  proof
    assume "of_int m = x / quantum x"
    then have "r = 0" unfolding r_def by simp
    then show "n = m" unfolding n_def by simp
  qed
  ultimately show ?thesis unfolding m_def by blast
qed

lemma round_double_exact:
  assumes "0 < x" "of_int \<lfloor>x / quantum x\<rfloor> = x / quantum x" "x < overflow_bound"
  shows "round_double x = Finite x"
proof -
  from round_double_candidates[OF assms(1)] obtain n where
    n: "of_int \<lfloor>x / quantum x\<rfloor> = x / quantum x \<longrightarrow> n = \<lfloor>x / quantum x\<rfloor>"
    and r: "round_double x =
                 (if overflow_bound \<le> of_int n * quantum x then Infinity
                  else Finite (of_int n * quantum x))"
    by blast
  from n assms(2) have "of_int n = x / quantum x" by simp
  then have "of_int n * quantum x = x"
    using quantum_pos[of x] by simp
  with r assms(3) show ?thesis by simp
qed

lemma round_double_lower:
  assumes "0 < x" "c \<le> of_int \<lfloor>x / quantum x\<rfloor> * quantum x"
  shows "round_double x = Infinity \<or> (\<exists>v. round_double x = Finite v \<and> c \<le> v)"
proof -
  from round_double_candidates[OF assms(1)] obtain n where
    n: "\<lfloor>x / quantum x\<rfloor> \<le> n"
    and r: "round_double x =
                 (if overflow_bound \<le> of_int n * quantum x then Infinity
                  else Finite (of_int n * quantum x))"
    by blast
  from n have "(of_int \<lfloor>x / quantum x\<rfloor> :: rat) \<le> of_int n" by simp
  then have "of_int \<lfloor>x / quantum x\<rfloor> * quantum x \<le> of_int n * quantum x"
    using quantum_pos[of x] by (simp add: mult_right_mono)
  with assms(2) have "c \<le> of_int n * quantum x" by linarith
  with r show ?thesis by simp
qed

lemma round_double_upper:
  assumes "0 < x" "(of_int \<lfloor>x / quantum x\<rfloor> + 1) * quantum x \<le> c" "c < overflow_bound"
  shows "\<exists>v. round_double x = Finite v \<and> 0 \<le> v \<and> v \<le> c"
proof -
  from round_double_candidates[OF assms(1)] obtain n where
    n: "\<lfloor>x / quantum x\<rfloor> \<le> n" "n \<le> \<lfloor>x / quantum x\<rfloor> + 1"
    and r: "round_double x =
                 (if overflow_bound \<le> of_int n * quantum x then Infinity
                  else Finite (of_int n * quantum x))"
    by blast
  from n(2) have "(of_int n :: rat) \<le> of_int \<lfloor>x / quantum x\<rfloor> + 1" by linarith
  then have "of_int n * quantum x \<le> (of_int \<lfloor>x / quantum x\<rfloor> + 1) * quantum x"
    using quantum_pos[of x] by (simp add: mult_right_mono)
  with assms(2) have up: "of_int n * quantum x \<le> c" by linarith
  have "0 \<le> x / quantum x" using assms(1) quantum_pos[of x] by simp
  then have "0 \<le> \<lfloor>x / quantum x\<rfloor>" by simp
  with n(1) have "0 \<le> n" by linarith
  then have "0 \<le> (of_int n :: rat)" by simp
  then have "0 \<le> of_int n * quantum x" using quantum_pos[of x] by simp
  with up r assms(3) show ?thesis by simp
qed


lemma quantum_inverse:
  assumes "0 < x" "ilog2 x \<le> 52"
  shows "quantum x = 1 / 2 ^ nat (52 - max (ilog2 x) (- 1022))"
proof -
  define k where "k = nat (52 - max (ilog2 x) (- 1022))"
  have "max (ilog2 x) (- 1022) - 52 = - int k" using assms(2) unfolding k_def by simp
  then have "quantum x = 2 powi (- int k)" unfolding quantum_def by simp
  also have "\<dots> = 1 / 2 ^ k" by (simp add: power_int_minus_divide)
  finally show ?thesis unfolding k_def .
qed

lemma round_double_of_nat:
  assumes "n < 2 ^ 53"
  shows "round_double (of_nat n) = Finite (of_nat n)"
proof (cases "n = 0")
  case True
  then show ?thesis by (simp add: round_double_def)
next
  case False
  let ?x = "of_nat n :: rat"
  define k where "k = nat (52 - max (ilog2 ?x) (- 1022))"
  have pos: "0 < ?x" using False by simp
  have "?x < of_nat (2 ^ 53)" using assms by (simp only: of_nat_less_iff)
  then have lt: "?x < 2 powi 53" by simp
  then have "ilog2 ?x < 53" using pos by (rule ilog2_less[rotated])
  then have q: "quantum ?x = 1 / 2 ^ k"
    unfolding k_def using pos by (intro quantum_inverse) simp_all
  have "?x / quantum ?x = of_int (int n * 2 ^ k)" unfolding q by simp
  then have whole: "of_int \<lfloor>?x / quantum ?x\<rfloor> = ?x / quantum ?x"
    by (metis floor_of_int)
  have "(2::rat) ^ 53 \<le> 2 ^ 1024" by (rule power_increasing) simp_all
  with lt have "?x < overflow_bound" unfolding overflow_bound_def by simp
  with pos whole show ?thesis by (rule round_double_exact)
qed

lemma round_double_below_one:
  assumes "0 < x" "x < 1"
  shows "\<exists>v. round_double x = Finite v \<and> 0 \<le> v \<and> v \<le> 1"
proof -
  define k where "k = nat (52 - max (ilog2 x) (- 1022))"
  have "x < 2 powi 0" using assms(2) by simp
  with assms(1) have "ilog2 x < 0" by (rule ilog2_less)
  then have q: "quantum x = 1 / 2 ^ k"
    unfolding k_def using assms(1) by (intro quantum_inverse) simp_all
  have "x / quantum x < of_int (2 ^ k)"
    unfolding q using assms(2) by simp
  then have "\<lfloor>x / quantum x\<rfloor> < 2 ^ k" by (simp only: floor_less_iff)
  then have "\<lfloor>x / quantum x\<rfloor> + 1 \<le> 2 ^ k" by simp
  then have "(of_int (\<lfloor>x / quantum x\<rfloor> + 1) :: rat) \<le> of_int (2 ^ k)"
    by (simp only: of_int_le_iff)
  then have "(of_int \<lfloor>x / quantum x\<rfloor> + 1) * quantum x \<le> 1"
    unfolding q by (simp add: field_simps)
  moreover have "(1::rat) < overflow_bound"
    unfolding overflow_bound_def by (rule one_less_power) simp_all
  ultimately show ?thesis using assms(1) by (intro round_double_upper)
qed

lemma floor_quantum_ge:
  assumes "0 < x" "- 1022 \<le> ilog2 x"
  shows "2 powi (ilog2 x) \<le> of_int \<lfloor>x / quantum x\<rfloor> * quantum x"
proof -
  have q: "quantum x = 2 powi (ilog2 x - 52)"
    using assms(2) by (simp add: quantum_def max_def)
  have "(2::rat) powi (52 + (ilog2 x - 52)) = 2 powi 52 * 2 powi (ilog2 x - 52)"
    by (rule power_int_add) simp
  then have split: "(2::rat) powi (ilog2 x) = of_int (2 ^ 52) * quantum x"
    unfolding q by simp
  from ilog2_bounds[OF assms(1)] have "of_int (2 ^ 52) * quantum x \<le> x"
    unfolding split by simp
  then have "of_int (2 ^ 52) \<le> x / quantum x"
    using quantum_pos[of x] by (simp add: field_simps)
  then have "2 ^ 52 \<le> \<lfloor>x / quantum x\<rfloor>" by (simp only: le_floor_iff)
  then have "(of_int (2 ^ 52) :: rat) \<le> of_int \<lfloor>x / quantum x\<rfloor>"
    by (simp only: of_int_le_iff)
  then have "of_int (2 ^ 52) * quantum x \<le> of_int \<lfloor>x / quantum x\<rfloor> * quantum x"
    using quantum_pos[of x] by (intro mult_right_mono) simp_all
  then show ?thesis unfolding split .
qed

lemma round_double_above_one:
  assumes "101 / 100 \<le> x"
  shows "round_double x = Infinity \<or> (\<exists>v. round_double x = Finite v \<and> 1 < v)"
proof -
  have pos: "0 < x" using assms by simp
  have "2 powi 0 \<le> x" using assms by simp
  with pos have e: "0 \<le> ilog2 x" by (rule ilog2_ge)
  have big: "1 < of_int \<lfloor>x / quantum x\<rfloor> * quantum x"
  proof (cases "ilog2 x = 0")
    case True
    then have q: "quantum x = 1 / 2 ^ 52"
      using quantum_inverse[OF pos] by simp
    have "(of_int (2 ^ 52 + 1) :: rat) \<le> 101 / 100 * 2 ^ 52" by simp
    also have "\<dots> \<le> x / quantum x" unfolding q using assms by simp
    finally have "2 ^ 52 + 1 \<le> \<lfloor>x / quantum x\<rfloor>" by (simp only: le_floor_iff)
    then have "(of_int (2 ^ 52 + 1) :: rat) \<le> of_int \<lfloor>x / quantum x\<rfloor>"
      by (simp only: of_int_le_iff)
    then have "of_int (2 ^ 52 + 1) * quantum x \<le> of_int \<lfloor>x / quantum x\<rfloor> * quantum x"
      using quantum_pos[of x] by (intro mult_right_mono) simp_all
    moreover have "1 < of_int (2 ^ 52 + 1) * quantum x" unfolding q by simp
    ultimately show ?thesis by linarith
  next
    case False
    with e have "1 \<le> ilog2 x" by simp
    then have "(2::rat) powi 1 \<le> 2 powi (ilog2 x)"
      by (intro power_int_increasing) simp_all
    moreover from e have "2 powi (ilog2 x) \<le> of_int \<lfloor>x / quantum x\<rfloor> * quantum x"
      using pos by (intro floor_quantum_ge) simp_all
    ultimately show ?thesis by simp
  qed
  from round_double_lower[OF pos order_refl] big show ?thesis by force
qed

lemma round_double_large:
  assumes "2 ^ 53 \<le> x"
  shows "round_double x = Infinity \<or> (\<exists>v. round_double x = Finite v \<and> 2 ^ 53 \<le> v)"
proof -
  have "(0::rat) < 2 ^ 53" by simp
  with assms have pos: "0 < x" by linarith
  have "2 powi 53 \<le> x" using assms by simp
  with pos have e: "53 \<le> ilog2 x" by (rule ilog2_ge)
  then have "(2::rat) powi 53 \<le> 2 powi (ilog2 x)"
    by (intro power_int_increasing) simp_all
  moreover from e have "2 powi (ilog2 x) \<le> of_int \<lfloor>x / quantum x\<rfloor> * quantum x"
    using pos by (intro floor_quantum_ge) simp_all
  ultimately have "2 ^ 53 \<le> of_int \<lfloor>x / quantum x\<rfloor> * quantum x" by simp
  with pos show ?thesis by (rule round_double_lower)
qed

lemma round_double_nonneg:
  assumes "0 \<le> x"
  shows "round_double x = Infinity \<or> (\<exists>v. round_double x = Finite v \<and> 0 \<le> v)"
proof (cases "x = 0")
  case True
  then show ?thesis by (simp add: round_double_def)
next
  case False
  with assms have pos: "0 < x" by simp
  then have "0 \<le> x / quantum x" using quantum_pos[of x] by simp
  then have "0 \<le> \<lfloor>x / quantum x\<rfloor>" by simp
  then have "0 \<le> (of_int \<lfloor>x / quantum x\<rfloor> :: rat)" by simp
  then have "0 \<le> of_int \<lfloor>x / quantum x\<rfloor> * quantum x"
    using quantum_pos[of x] by simp
  with pos show ?thesis by (rule round_double_lower)
qed


lemma score_nonnegative: "nonnegative (div_100 (round_double (of_nat n)))"
proof -
  from round_double_nonneg[of "of_nat n"]
  consider "round_double (of_nat n) = Infinity"
    | v where "round_double (of_nat n) = Finite v" "0 \<le> v"
    by auto
  then show ?thesis
  proof cases
    case 1
    then show ?thesis by (simp add: div_100_def nonnegative_def)
  next
    case 2
    then have "0 \<le> v / 100" by simp
    from round_double_nonneg[OF this] 2(1) show ?thesis
      by (auto simp: div_100_def nonnegative_def)
  qed
qed

lemma score_in_unit_interval:
  "in_unit_interval (div_100 (round_double (of_nat n))) \<longleftrightarrow> n \<le> 100"
proof (cases "n \<le> 100")
  case True
  then have "n < 2 ^ 53" by simp
  then have f: "round_double (of_nat n) = Finite (of_nat n)" by (rule round_double_of_nat)
  have "in_unit_interval (round_double (of_nat n / 100))"
  proof -
    consider "n = 0" | "n = 100" | "0 < n" "n < 100" using True by linarith
    then show ?thesis
    proof cases
      case 1
      then show ?thesis by (simp add: round_double_def in_unit_interval_def)
    next
      case 2
      have "round_double (of_nat 1) = Finite (of_nat 1)"
        by (rule round_double_of_nat) simp
      with 2 show ?thesis by (simp add: in_unit_interval_def)
    next
      case 3
      then have "0 < (of_nat n / 100 :: rat)" "(of_nat n / 100 :: rat) < 1" by simp_all
      from round_double_below_one[OF this] show ?thesis
        by (auto simp: in_unit_interval_def)
    qed
  qed
  with True f show ?thesis by (simp add: div_100_def)
next
  case False
  then have n: "101 \<le> n" by simp
  have big: "round_double (of_nat n) = Infinity \<or>
      (\<exists>v. round_double (of_nat n) = Finite v \<and> 101 \<le> v)"
  proof (cases "n < 2 ^ 53")
    case True
    then have "round_double (of_nat n) = Finite (of_nat n)" by (rule round_double_of_nat)
    moreover from n have "(101::rat) \<le> of_nat n" by simp
    ultimately show ?thesis by simp
  next
    case False
    then have "(of_nat (2 ^ 53) :: rat) \<le> of_nat n" by (simp only: of_nat_le_iff)
    then have "(2::rat) ^ 53 \<le> of_nat n" by simp
    from round_double_large[OF this] show ?thesis by auto
  qed
  have "\<not> in_unit_interval (div_100 (round_double (of_nat n)))"
  proof -
    from big consider "round_double (of_nat n) = Infinity"
      | v where "round_double (of_nat n) = Finite v" "101 \<le> v"
      by auto
    then show ?thesis
    proof cases
      case 1
      then show ?thesis by (simp add: div_100_def in_unit_interval_def)
    next
      case 2
      then have "101 / 100 \<le> v / 100" by simp
      from round_double_above_one[OF this] 2(1) show ?thesis
        by (auto simp: div_100_def in_unit_interval_def)
    qed
  qed
  with False show ?thesis by simp
qed

lemma captured_score_small:
  "decimal_value g < 2 ^ 53 \<Longrightarrow>
   captured_score g = round_double (of_nat (decimal_value g) / 100)"
  by (simp add: captured_score_def div_100_def round_double_of_nat)

lemma double_82: "round_double (82 / 100) = Finite (7385903388887613 / 9007199254740992)"
  by code_simp

lemma double_90: "round_double (90 / 100) = Finite (8106479329266893 / 9007199254740992)"
  by code_simp

lemma double_10: "round_double (10 / 100) = Finite (3602879701896397 / 36028797018963968)"
  by code_simp

lemma double_150: "round_double (150 / 100) = Finite (3 / 2)"
  by code_simp

lemma captured_82: "captured_score ''82'' = round_double (82 / 100)"
  by (simp add: captured_score_small decimal_value_def digit_value_def ord_def)

lemma captured_90: "captured_score ''90'' = round_double (90 / 100)"
  by (simp add: captured_score_small decimal_value_def digit_value_def ord_def)

lemma captured_10: "captured_score ''10'' = round_double (10 / 100)"
  by (simp add: captured_score_small decimal_value_def digit_value_def ord_def)

lemma captured_150: "captured_score ''150'' = round_double (150 / 100)"
  by (simp add: captured_score_small decimal_value_def digit_value_def ord_def)

section \<open>The loops of the response structurer\<close>

lemma disease_loop_find:
  "disease_loop ds low r =
     (case find (\<lambda>d. py_in d low) ds of
        None \<Rightarrow> r
      | Some d \<Rightarrow> r\<lparr>disease_detected := Some (title d)\<rparr>)"
  by (induction ds) auto

lemma confidence_loop_first:
  assumes "\<forall>p \<in> set ps. has_group p \<and> groups_over py_isdigit p"
  shows "confidence_loop ps t r =
     Inr (case first_confidence ps t of
            None \<Rightarrow> r
          | Some v \<Rightarrow> r\<lparr>confidence_score := Some v\<rparr>)"
  using assms
proof (induction ps)
  case Nil
  then show ?case by simp
next
  case (Cons p ps)
  show ?case
  proof (cases "re_search True p t")
    case None
    with Cons show ?thesis by simp
  next
    case (Some g)
    from Cons.prems have "has_group p" "groups_over py_isdigit p" by simp_all
    with Some have "g \<noteq> [] \<and> list_all py_isdigit g"
      using re_search_group by blast
    then have "py_float g = Inr (round_double (of_nat (decimal_value g)))"
      by (simp add: py_float_def)
    with Some show ?thesis by (simp add: captured_score_def)
  qed
qed

lemma confidence_loop_patterns:
  "confidence_loop confidence_patterns t r =
     Inr (case first_confidence confidence_patterns t of
            None \<Rightarrow> r
          | Some v \<Rightarrow> r\<lparr>confidence_score := Some v\<rparr>)"
  by (rule confidence_loop_first) (simp add: confidence_patterns_groups)

lemma first_confidence_Some:
  "first_confidence ps t = Some s \<Longrightarrow>
   \<exists>k<length ps. \<exists>g.
     (\<forall>j<k. re_search True (ps ! j) t = None)
     \<and> re_search True (ps ! k) t = Some g \<and> s = captured_score g"
proof (induction ps)
  case Nil
  then show ?case by simp
next
  case (Cons p ps)
  show ?case
  proof (cases "re_search True p t")
    case (Some g)
    with Cons.prems have "s = captured_score g" by simp
    with Some have "(\<forall>j<0. re_search True ((p # ps) ! j) t = None)
        \<and> re_search True ((p # ps) ! 0) t = Some g \<and> s = captured_score g"
      by simp
    then show ?thesis by (intro exI[of _ 0]) auto
  next
    case None
    with Cons.prems have "first_confidence ps t = Some s" by simp
    from Cons.IH[OF this] obtain k g where k: "k < length ps"
      and before: "\<forall>j<k. re_search True (ps ! j) t = None"
      and here: "re_search True (ps ! k) t = Some g" "s = captured_score g"
      by blast
    have "\<forall>j<Suc k. re_search True ((p # ps) ! j) t = None"
    proof (intro allI impI)
      fix j assume "j < Suc k"
      then show "re_search True ((p # ps) ! j) t = None"
        using None before by (cases j) simp_all
    qed
    with k here have "Suc k < length (p # ps)
        \<and> (\<forall>j<Suc k. re_search True ((p # ps) ! j) t = None)
        \<and> re_search True ((p # ps) ! Suc k) t = Some g \<and> s = captured_score g"
      by simp
    then show ?thesis by blast
  qed
qed

lemma first_confidence_unfold:
  "first_confidence confidence_patterns t =
     (case re_search True (confidence_patterns ! 0) t of
        Some g \<Rightarrow> Some (captured_score g)
      | None \<Rightarrow>
     (case re_search True (confidence_patterns ! 1) t of
        Some g \<Rightarrow> Some (captured_score g)
      | None \<Rightarrow>
     (case re_search True (confidence_patterns ! 2) t of
        Some g \<Rightarrow> Some (captured_score g)
      | None \<Rightarrow>
     (case re_search True (confidence_patterns ! 3) t of
        Some g \<Rightarrow> Some (captured_score g)
      | None \<Rightarrow> None))))"
  by (simp add: confidence_patterns_def split: option.splits)

lemma dropWhile_fixed: "xs = [] \<or> \<not> P (hd xs) \<Longrightarrow> dropWhile P xs = xs"
  by (cases xs) auto

lemma dropWhile_head: "dropWhile P xs = [] \<or> \<not> P (hd (dropWhile P xs))"
  by (metis hd_dropWhile)

lemma dropWhile_last: "dropWhile P xs \<noteq> [] \<Longrightarrow> last (dropWhile P xs) = last xs"
  by (metis last_appendR takeWhile_dropWhile_id)

lemma strip_idem: "strip (strip s) = strip s"
proof -
  define u where "u = dropWhile py_isspace s"
  define v where "v = dropWhile py_isspace (rev u)"
  have s': "strip s = rev v" by (simp add: strip_def u_def v_def)
  have v_head: "v = [] \<or> \<not> py_isspace (hd v)"
    unfolding v_def by (rule dropWhile_head)
  have u_head: "u = [] \<or> \<not> py_isspace (hd u)"
    unfolding u_def by (rule dropWhile_head)
  have v_last: "v = [] \<or> \<not> py_isspace (last v)"
  proof (cases "v = []")
    case True
    then show ?thesis by simp
  next
    case False
    then have "last v = last (rev u)" unfolding v_def by (rule dropWhile_last)
    moreover from False have "u \<noteq> []" unfolding v_def by auto
    ultimately have "last v = hd u" by (simp add: last_rev)
    with u_head \<open>u \<noteq> []\<close> show ?thesis by simp
  qed
  have "rev v = [] \<or> \<not> py_isspace (hd (rev v))"
    using v_last by (cases "v = []") (simp_all add: hd_rev)
  then have one: "dropWhile py_isspace (rev v) = rev v" by (rule dropWhile_fixed)
  have two: "dropWhile py_isspace v = v" using v_head by (rule dropWhile_fixed)
  show ?thesis unfolding s' by (simp add: strip_def one two)
qed

lemma line_loop_filter:
  "line_loop ls (actions, remedies) =
     (actions @ filter action_line (filter (\<lambda>line. line \<noteq> []) (map strip ls)),
      remedies @ filter remedy_line (filter (\<lambda>line. line \<noteq> []) (map strip ls)))"
proof (induction ls arbitrary: actions remedies)
  case Nil
  then show ?case by simp
next
  case (Cons raw ls)
  show ?case
    by (simp add: Cons.IH Let_def strip_idem action_line_def remedy_line_def numbered_def)
qed

lemma line_loop_source_lines:
  "line_loop (split_nl t) ([], []) =
     (filter action_line (source_lines t), filter remedy_line (source_lines t))"
  by (simp add: line_loop_filter source_lines_def)

lemma parse_body_shape:
  "parse_body t =
     Inr \<lparr>analysis = t,
          disease_detected = map_option title (find (\<lambda>d. py_in d (lower t)) diseases),
          confidence_score = first_confidence confidence_patterns t,
          recommended_actions = take 5 (filter action_line (source_lines t)),
          local_remedies = take 3 (filter remedy_line (source_lines t))\<rparr>"
  unfolding parse_body_def Let_def
  by (simp add: confidence_loop_patterns disease_loop_find line_loop_source_lines
      split: option.splits)

lemma parse_image_analysis_shape:
  "parse_image_analysis t =
     \<lparr>analysis = t,
      disease_detected = map_option title (find (\<lambda>d. py_in d (lower t)) diseases),
      confidence_score = first_confidence confidence_patterns t,
      recommended_actions = take 5 (filter action_line (source_lines t)),
      local_remedies = take 3 (filter remedy_line (source_lines t))\<rparr>"
  unfolding parse_image_analysis_def by (simp add: parse_body_shape)

lemma py_in_sublist: "py_in sub s = sublist sub s"
  by (induction s) (simp_all add: sublist_Cons_right)

lemma py_in_mildew:
  "py_in ''powdery mildew'' s \<Longrightarrow> py_in ''mildew'' s"
  "py_in ''downy mildew'' s \<Longrightarrow> py_in ''mildew'' s"
proof -
  have a: "sublist ''mildew'' ''powdery mildew''"
    unfolding sublist_def by (rule exI[of _ "''powdery ''"], rule exI[of _ "[]"]) simp
  have b: "sublist ''mildew'' ''downy mildew''"
    unfolding sublist_def by (rule exI[of _ "''downy ''"], rule exI[of _ "[]"]) simp
  show "py_in ''powdery mildew'' s \<Longrightarrow> py_in ''mildew'' s"
    unfolding py_in_sublist using a sublist_order.order.trans by blast
  show "py_in ''downy mildew'' s \<Longrightarrow> py_in ''mildew'' s"
    unfolding py_in_sublist using b sublist_order.order.trans by blast
qed

lemma history_loop_map:
  "history_loop hs messages = messages @ map history_message hs"
  by (induction hs arbitrary: messages) (simp_all add: history_message_def)

lemma build_messages_shape:
  "fst (build_messages self message conversation_history language) =
     SystemMessage (system_prompt self)
     # map history_message (last_five conversation_history)
     @ [HumanMessage (if language = Some ''kn''
                      then ''[Please respond in Kannada language] '' @ message
                      else message)]"
  by (simp add: build_messages_def Let_def history_loop_map)

section \<open>Properties of the response structurer\<close>

text \<open>
  C1. The response structurer never raises: on every text the \<^verbatim>\<open>try\<close> block runs to its
  \<^verbatim>\<open>return\<close> (the only call that can raise, \<^verbatim>\<open>float\<close>, always receives a non-empty run
  of digits), and the field \<^verbatim>\<open>analysis\<close> of the result is the input text unmodified. The
  result is the one of the \<^verbatim>\<open>try\<close> block or the one of the \<^verbatim>\<open>except\<close> block, and the
  latter keeps the text and leaves every derived field absent or empty.
\<close>

theorem parse_image_analysis_never_raises:
  "(\<exists>r. parse_body response_text = Inr r)
   \<and> analysis (parse_image_analysis response_text) = response_text
   \<and> (parse_body response_text = Inr (parse_image_analysis response_text)
        \<or> parse_image_analysis response_text = parse_fallback response_text)
   \<and> parse_fallback response_text =
        \<lparr>analysis = response_text, disease_detected = None, confidence_score = None,
         recommended_actions = [], local_remedies = []\<rparr>"
  by (simp add: parse_body_shape parse_image_analysis_shape parse_fallback_def)

text \<open>
  C2. Confidence extraction tries the four patterns in their fixed order, and the first
  pattern that matches anywhere in the text gives the score, the integer captured at its
  leftmost match divided by 100; a later pattern is consulted only when every earlier one
  matches nowhere. A text that contains "confidence: 82%" with no earlier match of the
  first pattern, in particular one that starts with it, has the score 0.82, the double
  that this literal denotes. On "90 percent confidence" the first three patterns match
  nowhere and the fourth gives 0.90.
\<close>

theorem confidence_first_pattern_wins:
  "confidence_score (parse_image_analysis response_text) =
     (case re_search True (confidence_patterns ! 0) response_text of
        Some g \<Rightarrow> Some (captured_score g)
      | None \<Rightarrow>
     (case re_search True (confidence_patterns ! 1) response_text of
        Some g \<Rightarrow> Some (captured_score g)
      | None \<Rightarrow>
     (case re_search True (confidence_patterns ! 2) response_text of
        Some g \<Rightarrow> Some (captured_score g)
      | None \<Rightarrow>
     (case re_search True (confidence_patterns ! 3) response_text of
        Some g \<Rightarrow> Some (captured_score g)
      | None \<Rightarrow> None))))
   \<and> captured_score g = div_100 (round_double (of_nat (decimal_value g)))
   \<and> confidence_score (parse_image_analysis (''confidence: 82%'' @ post)) =
       Some (round_double (82 / 100))
   \<and> ((\<forall>i<length pre. re_match True (confidence_patterns ! 0)
                          (drop i (pre @ ''confidence: 82%'' @ post)) = None) \<longrightarrow>
        confidence_score (parse_image_analysis (pre @ ''confidence: 82%'' @ post)) =
          Some (round_double (82 / 100)))
   \<and> re_search True (confidence_patterns ! 0) ''90 percent confidence'' = None
   \<and> re_search True (confidence_patterns ! 1) ''90 percent confidence'' = None
   \<and> re_search True (confidence_patterns ! 2) ''90 percent confidence'' = None
   \<and> re_search True (confidence_patterns ! 3) ''90 percent confidence'' = Some ''90''
   \<and> confidence_score (parse_image_analysis ''90 percent confidence'') =
       Some (round_double (90 / 100))
   \<and> round_double (82 / 100) = Finite (7385903388887613 / 9007199254740992)
   \<and> round_double (90 / 100) = Finite (8106479329266893 / 9007199254740992)"
proof -
  have score: "confidence_score (parse_image_analysis t) = first_confidence confidence_patterns t"
    for t by (simp add: parse_image_analysis_shape)
  have at_start:
    "re_search True (confidence_patterns ! 0) (''confidence: 82%'' @ post) = Some ''82''"
    by (simp add: re_eval)
  have value_82: "first_confidence confidence_patterns t = Some (round_double (82 / 100))"
    if "re_search True (confidence_patterns ! 0) t = Some ''82''" for t
    using that by (simp add: first_confidence_unfold captured_82)
  have suffix:
    "confidence_score (parse_image_analysis (''confidence: 82%'' @ post)) =
       Some (round_double (82 / 100))"
    unfolding score using at_start by (rule value_82)
  have inside: "confidence_score (parse_image_analysis (pre @ ''confidence: 82%'' @ post)) =
          Some (round_double (82 / 100))"
    if "\<forall>i<length pre. re_match True (confidence_patterns ! 0)
                          (drop i (pre @ ''confidence: 82%'' @ post)) = None"
  proof -
    from that have "re_search True (confidence_patterns ! 0) (pre @ ''confidence: 82%'' @ post) =
        re_search True (confidence_patterns ! 0) (''confidence: 82%'' @ post)"
      by (rule re_search_skip)
    with at_start show ?thesis unfolding score by (simp add: value_82)
  qed
  have n0: "re_search True (confidence_patterns ! 0) ''90 percent confidence'' = None"
    by (simp add: re_eval)
  have n1: "re_search True (confidence_patterns ! 1) ''90 percent confidence'' = None"
    by (simp add: re_eval)
  have n2: "re_search True (confidence_patterns ! 2) ''90 percent confidence'' = None"
    by (simp add: re_eval)
  have n3: "re_search True (confidence_patterns ! 3) ''90 percent confidence'' = Some ''90''"
    by (simp add: re_eval)
  have ninety:
    "confidence_score (parse_image_analysis ''90 percent confidence'') =
       Some (round_double (90 / 100))"
    unfolding score first_confidence_unfold n0 n1 n2 n3
    by (simp add: captured_90)
  have general: "confidence_score (parse_image_analysis response_text) =
     (case re_search True (confidence_patterns ! 0) response_text of
        Some g \<Rightarrow> Some (captured_score g)
      | None \<Rightarrow>
     (case re_search True (confidence_patterns ! 1) response_text of
        Some g \<Rightarrow> Some (captured_score g)
      | None \<Rightarrow>
     (case re_search True (confidence_patterns ! 2) response_text of
        Some g \<Rightarrow> Some (captured_score g)
      | None \<Rightarrow>
     (case re_search True (confidence_patterns ! 3) response_text of
        Some g \<Rightarrow> Some (captured_score g)
      | None \<Rightarrow> None))))"
    unfolding score by (rule first_confidence_unfold)
  have unfolded: "captured_score g = div_100 (round_double (of_nat (decimal_value g)))"
    by (simp add: captured_score_def)
  from general unfolded suffix inside n0 n1 n2 n3 ninety double_82 double_90
  show ?thesis by blast
qed

theorem confidence_first_pattern_wins_witness:
  "confidence_score
     (parse_image_analysis (''Leaf rust. '' @ ''confidence: 82%'' @ '' (approx.)'')) =
   Some (round_double (82 / 100))"
proof -
  have none_before: "\<forall>i<length ''Leaf rust. ''. re_match True (confidence_patterns ! 0)
      (drop i (''Leaf rust. '' @ ''confidence: 82%'' @ '' (approx.)'')) = None"
    by (simp add: re_eval All_less_Suc)
  from confidence_first_pattern_wins [of "[]" "[]" "'' (approx.)''" "''Leaf rust. ''"]
  have "(\<forall>i<length ''Leaf rust. ''. re_match True (confidence_patterns ! 0)
      (drop i (''Leaf rust. '' @ ''confidence: 82%'' @ '' (approx.)'')) = None) \<longrightarrow>
    confidence_score
     (parse_image_analysis (''Leaf rust. '' @ ''confidence: 82%'' @ '' (approx.)'')) =
    Some (round_double (82 / 100))"
    by blast
  with none_before show ?thesis by blast
qed

text \<open>
  C2, as the specification words it (every input that contains "confidence: 82%" has the
  score 0.82), fails: "confidence: 10%, overall confidence: 82%" contains the phrase, the
  leftmost match of the first pattern captures 10, and the score is 0.10.
\<close>

theorem confidence_82_after_earlier_match:
  "py_in ''confidence: 82%'' ''confidence: 10%, overall confidence: 82%''
   \<and> re_search True (confidence_patterns ! 0) ''confidence: 10%, overall confidence: 82%'' =
       Some ''10''
   \<and> confidence_score (parse_image_analysis ''confidence: 10%, overall confidence: 82%'') =
       Some (Finite (3602879701896397 / 36028797018963968))
   \<and> round_double (82 / 100) = Finite (7385903388887613 / 9007199254740992)
   \<and> \<not> (\<forall>response_text.
          py_in ''confidence: 82%'' response_text \<longrightarrow>
          confidence_score (parse_image_analysis response_text) =
            Some (round_double (82 / 100)))"
proof -
  let ?t = "''confidence: 10%, overall confidence: 82%''"
  have contains: "py_in ''confidence: 82%'' ?t" by simp
  have first: "re_search True (confidence_patterns ! 0) ?t = Some ''10''"
    by (simp add: re_eval)
  have "first_confidence confidence_patterns ?t = Some (captured_score ''10'')"
    unfolding first_confidence_unfold first by simp
  then have ten: "confidence_score (parse_image_analysis ?t) =
      Some (Finite (3602879701896397 / 36028797018963968))"
    using captured_10 double_10 by (simp add: parse_image_analysis_shape)
  have "\<not> (\<forall>response_text.
          py_in ''confidence: 82%'' response_text \<longrightarrow>
          confidence_score (parse_image_analysis response_text) =
            Some (round_double (82 / 100)))"
  proof
    assume "\<forall>response_text.
          py_in ''confidence: 82%'' response_text \<longrightarrow>
          confidence_score (parse_image_analysis response_text) =
            Some (round_double (82 / 100))"
    with contains have "confidence_score (parse_image_analysis ?t) =
        Some (round_double (82 / 100))" by blast
    with ten show False using double_82 by simp
  qed
  with contains first ten double_82 show ?thesis by blast
qed

text \<open>
  C3. On every text the two lists are disjoint: a line is classified once, as an action
  or as a remedy, and a line with both an action verb and a remedy-indicator term is a
  remedy, never an action. \<^verbatim>\<open>recommended_actions\<close> holds the first five action lines
  and \<^verbatim>\<open>local_remedies\<close> the first three remedy lines, in the order of the text, so
  they have at most five and at most three entries.
\<close>

theorem actions_remedies_disjoint_bounded:
  "set (recommended_actions (parse_image_analysis response_text))
     \<inter> set (local_remedies (parse_image_analysis response_text)) = {}
   \<and> length (recommended_actions (parse_image_analysis response_text)) \<le> 5
   \<and> length (local_remedies (parse_image_analysis response_text)) \<le> 3
   \<and> recommended_actions (parse_image_analysis response_text) =
       take 5 (filter action_line (source_lines response_text))
   \<and> local_remedies (parse_image_analysis response_text) =
       take 3 (filter remedy_line (source_lines response_text))
   \<and> \<not> (action_line line \<and> remedy_line line)
   \<and> (any_in action_verbs line \<and> any_in remedy_terms line \<longrightarrow>
        remedy_line line \<and> \<not> action_line line)
   \<and> (\<forall>l \<in> set (recommended_actions (parse_image_analysis response_text)).
        \<not> (any_in action_verbs l \<and> any_in remedy_terms l))"
proof -
  let ?r = "parse_image_analysis response_text"
  have acts: "recommended_actions ?r = take 5 (filter action_line (source_lines response_text))"
    by (simp add: parse_image_analysis_shape)
  have rems: "local_remedies ?r = take 3 (filter remedy_line (source_lines response_text))"
    by (simp add: parse_image_analysis_shape)
  have excl: "\<not> (action_line l \<and> remedy_line l)" for l
    by (auto simp: action_line_def remedy_line_def)
  have a_in: "action_line l" if "l \<in> set (recommended_actions ?r)" for l
    using that unfolding acts by (auto dest: in_set_takeD)
  have r_in: "remedy_line l" if "l \<in> set (local_remedies ?r)" for l
    using that unfolding rems by (auto dest: in_set_takeD)
  have disj: "set (recommended_actions ?r) \<inter> set (local_remedies ?r) = {}"
    using a_in r_in excl by blast
  have la: "length (recommended_actions ?r) \<le> 5" unfolding acts by simp
  have lr: "length (local_remedies ?r) \<le> 3" unfolding rems by simp
  have prec: "any_in action_verbs line \<and> any_in remedy_terms line \<longrightarrow>
        remedy_line line \<and> \<not> action_line line"
    by (auto simp: action_line_def remedy_line_def)
  have never: "\<forall>l \<in> set (recommended_actions ?r).
        \<not> (any_in action_verbs l \<and> any_in remedy_terms l)"
    using a_in by (auto simp: action_line_def)
  from disj la lr acts rems excl[of line] prec never show ?thesis by blast
qed

theorem actions_remedies_disjoint_bounded_witness:
  "recommended_actions (parse_image_analysis ''Use neem oil\<newline>1. Cut bad leaves'') =
     [''1. Cut bad leaves'']
   \<and> local_remedies (parse_image_analysis ''Use neem oil\<newline>1. Cut bad leaves'') =
     [''Use neem oil'']
   \<and> any_in action_verbs ''Use neem oil'' \<and> any_in remedy_terms ''Use neem oil''
   \<and> remedy_line ''Use neem oil'' \<and> \<not> action_line ''Use neem oil''"
proof -
  have a: "recommended_actions (parse_image_analysis ''Use neem oil\<newline>1. Cut bad leaves'') =
     [''1. Cut bad leaves'']"
    by code_simp
  have b: "local_remedies (parse_image_analysis ''Use neem oil\<newline>1. Cut bad leaves'') =
     [''Use neem oil'']"
    by code_simp
  have v: "any_in action_verbs ''Use neem oil'' \<and> any_in remedy_terms ''Use neem oil''"
    by code_simp
  from actions_remedies_disjoint_bounded
    [of "''Use neem oil\<newline>1. Cut bad leaves''" "''Use neem oil''"] a b v
  show ?thesis by blast
qed

text \<open>
  C4. When confidence extraction succeeds, the score is \<^verbatim>\<open>float(g) / 100\<close> for the text
  \<^verbatim>\<open>g\<close>, a non-empty run of digits, that the first matching pattern captures at its
  leftmost match in the input. The score is never negative, and it lies in the interval
  from 0 to 1 exactly when the captured integer is at most 100: nothing bounds the integer.
\<close>

theorem confidence_score_is_percentage:
  assumes "confidence_score (parse_image_analysis response_text) = Some s"
  shows "\<exists>k<length confidence_patterns. \<exists>g.
           (\<forall>j<k. re_search True (confidence_patterns ! j) response_text = None)
           \<and> re_search True (confidence_patterns ! k) response_text = Some g
           \<and> g \<noteq> [] \<and> list_all py_isdigit g
           \<and> s = div_100 (round_double (of_nat (decimal_value g)))
           \<and> nonnegative s
           \<and> (in_unit_interval s \<longleftrightarrow> decimal_value g \<le> 100)"
proof -
  from assms have "first_confidence confidence_patterns response_text = Some s"
    by (simp add: parse_image_analysis_shape)
  from first_confidence_Some[OF this] obtain k g
    where k: "k < length confidence_patterns"
      and before: "\<forall>j<k. re_search True (confidence_patterns ! j) response_text = None"
      and g: "re_search True (confidence_patterns ! k) response_text = Some g"
      and s: "s = captured_score g"
    by blast
  from k have "confidence_patterns ! k \<in> set confidence_patterns" by simp
  then have "has_group (confidence_patterns ! k)"
    "groups_over py_isdigit (confidence_patterns ! k)"
    using confidence_patterns_groups by simp_all
  with g have digits: "g \<noteq> [] \<and> list_all py_isdigit g"
    using re_search_group by blast
  have float_s: "s = div_100 (round_double (of_nat (decimal_value g)))"
    unfolding s by (simp add: captured_score_def)
  have "nonnegative s" unfolding float_s by (rule score_nonnegative)
  moreover have "in_unit_interval s \<longleftrightarrow> decimal_value g \<le> 100"
    unfolding float_s by (rule score_in_unit_interval)
  ultimately show ?thesis using k before g digits float_s by blast
qed

theorem confidence_score_is_percentage_witness:
  "confidence_score (parse_image_analysis ''Confidence: 82%'') =
     Some (round_double (82 / 100))
   \<and> (\<exists>k<length confidence_patterns. \<exists>g.
           (\<forall>j<k. re_search True (confidence_patterns ! j) ''Confidence: 82%'' = None)
           \<and> re_search True (confidence_patterns ! k) ''Confidence: 82%'' = Some g
           \<and> g \<noteq> [] \<and> list_all py_isdigit g
           \<and> round_double (82 / 100) = div_100 (round_double (of_nat (decimal_value g)))
           \<and> nonnegative (round_double (82 / 100))
           \<and> (in_unit_interval (round_double (82 / 100)) \<longleftrightarrow> decimal_value g \<le> 100))"
proof -
  have first: "re_search True (confidence_patterns ! 0) ''Confidence: 82%'' = Some ''82''"
    by (simp add: re_eval)
  have "first_confidence confidence_patterns ''Confidence: 82%'' = Some (captured_score ''82'')"
    unfolding first_confidence_unfold first by simp
  then have h: "confidence_score (parse_image_analysis ''Confidence: 82%'') =
      Some (round_double (82 / 100))"
    by (simp add: parse_image_analysis_shape captured_82)
  from confidence_score_is_percentage [OF h] h show ?thesis by blast
qed

text \<open>
  C4, as the specification words it (every extracted score lies in the interval from 0
  to 1), fails: the text "confidence: 150%" has the score 1.5.
\<close>

theorem confidence_score_above_one:
  "confidence_score (parse_image_analysis ''confidence: 150%'') = Some (Finite (3 / 2))
   \<and> \<not> in_unit_interval (Finite (3 / 2))
   \<and> \<not> (\<forall>response_text s.
          confidence_score (parse_image_analysis response_text) = Some s \<longrightarrow>
          in_unit_interval s)"
proof -
  have first: "re_search True (confidence_patterns ! 0) ''confidence: 150%'' = Some ''150''"
    by (simp add: re_eval)
  have "first_confidence confidence_patterns ''confidence: 150%'' = Some (captured_score ''150'')"
    unfolding first_confidence_unfold first by simp
  then have v: "confidence_score (parse_image_analysis ''confidence: 150%'') =
      Some (Finite (3 / 2))"
    using captured_150 double_150 by (simp add: parse_image_analysis_shape)
  have out: "\<not> in_unit_interval (Finite (3 / 2))"
    by (simp add: in_unit_interval_def)
  have "\<not> (\<forall>response_text s.
          confidence_score (parse_image_analysis response_text) = Some s \<longrightarrow>
          in_unit_interval s)"
  proof
    assume "\<forall>response_text s.
          confidence_score (parse_image_analysis response_text) = Some s \<longrightarrow>
          in_unit_interval s"
    with v have "in_unit_interval (Finite (3 / 2))" by blast
    with out show False by simp
  qed
  with v out show ?thesis by simp
qed

text \<open>
  C5. Disease extraction scans the lower-cased text for the seventeen vocabulary terms
  in the order of the list, not in the order in which they occur in the text: the result
  is the title-cased first term of the list that the text contains, and it is absent
  when the text contains no term. "Rust spots, maybe early blight" gives "Blight",
  the earlier entry of the list, although "rust" comes first in the text.
\<close>

theorem disease_first_in_list_order:
  "disease_detected (parse_image_analysis response_text) =
     map_option title (find (\<lambda>d. py_in d (lower response_text)) diseases)
   \<and> (\<forall>i<length diseases.
        py_in (diseases ! i) (lower response_text) \<and>
        (\<forall>j<i. \<not> py_in (diseases ! j) (lower response_text)) \<longrightarrow>
        disease_detected (parse_image_analysis response_text) = Some (title (diseases ! i)))
   \<and> ((\<forall>d \<in> set diseases. \<not> py_in d (lower response_text)) \<longrightarrow>
        disease_detected (parse_image_analysis response_text) = None)
   \<and> length diseases = 17
   \<and> map title diseases =
       [''Blight'', ''Wilt'', ''Rust'', ''Mildew'', ''Mosaic'', ''Rot'', ''Canker'',
        ''Anthracnose'', ''Leaf Spot'', ''Powdery Mildew'', ''Downy Mildew'',
        ''Bacterial'', ''Fungal'', ''Viral'', ''Aphid'', ''Thrips'', ''Whitefly'']
   \<and> disease_detected (parse_image_analysis ''Rust spots, maybe early blight'') =
       Some ''Blight''"
proof -
  let ?P = "\<lambda>d. py_in d (lower response_text)"
  have found: "disease_detected (parse_image_analysis response_text) =
      map_option title (find ?P diseases)"
    by (simp add: parse_image_analysis_shape)
  have first: "\<forall>i<length diseases.
        ?P (diseases ! i) \<and> (\<forall>j<i. \<not> ?P (diseases ! j)) \<longrightarrow>
        disease_detected (parse_image_analysis response_text) = Some (title (diseases ! i))"
  proof (intro allI impI)
    fix i
    assume i: "i < length diseases"
      and here: "?P (diseases ! i) \<and> (\<forall>j<i. \<not> ?P (diseases ! j))"
    then have "find ?P diseases = Some (diseases ! i)"
      unfolding find_Some_iff by blast
    then show "disease_detected (parse_image_analysis response_text) =
        Some (title (diseases ! i))"
      unfolding found by simp
  qed
  have absent: "(\<forall>d \<in> set diseases. \<not> ?P d) \<longrightarrow>
        disease_detected (parse_image_analysis response_text) = None"
  proof
    assume "\<forall>d \<in> set diseases. \<not> ?P d"
    then have "find ?P diseases = None"
      unfolding find_None_iff by blast
    then show "disease_detected (parse_image_analysis response_text) = None"
      unfolding found by simp
  qed
  have count: "length diseases = 17"
    by (simp add: diseases_def)
  have titles: "map title diseases =
       [''Blight'', ''Wilt'', ''Rust'', ''Mildew'', ''Mosaic'', ''Rot'', ''Canker'',
        ''Anthracnose'', ''Leaf Spot'', ''Powdery Mildew'', ''Downy Mildew'',
        ''Bacterial'', ''Fungal'', ''Viral'', ''Aphid'', ''Thrips'', ''Whitefly'']"
    by (simp add: diseases_def title_eval)
  have example: "disease_detected (parse_image_analysis ''Rust spots, maybe early blight'') =
       Some ''Blight''"
    by (simp add: parse_image_analysis_shape diseases_def title_eval lower_def)
  from found first absent count titles example show ?thesis by blast
qed

theorem disease_first_in_list_order_witness:
  "disease_detected (parse_image_analysis ''Orange rust and wilt'') = Some ''Wilt''
   \<and> disease_detected (parse_image_analysis ''Healthy crop'') = None"
proof -
  have a: "(1::nat) < length diseases" by (simp add: diseases_def)
  have b: "py_in (diseases ! 1) (lower ''Orange rust and wilt'') \<and>
        (\<forall>j<1. \<not> py_in (diseases ! j) (lower ''Orange rust and wilt''))"
    by (simp add: diseases_def lower_def char_eval)
  have c: "\<forall>d \<in> set diseases. \<not> py_in d (lower ''Healthy crop'')"
    by (simp add: diseases_def lower_def char_eval)
  have t: "title (diseases ! 1) = ''Wilt''"
    by (simp add: diseases_def title_eval)
  from disease_first_in_list_order [of "''Orange rust and wilt''"] a b t
  have one: "disease_detected (parse_image_analysis ''Orange rust and wilt'') = Some ''Wilt''"
    by metis
  from disease_first_in_list_order [of "''Healthy crop''"] c
  have two: "disease_detected (parse_image_analysis ''Healthy crop'') = None"
    by blast
  from one two show ?thesis by simp
qed

text \<open>
  C6. On the line "1. Add turmeric powder" the structurer leaves what the specification
  describes: the line has no action verb, matches the numbered-list pattern, is longer
  than 10 characters and contains the remedy-indicator term "turmeric", yet it is
  classified as an action, because the numbered-list branch tests only "neem",
  "organic" and "local". The branch for lines with an action verb tests all nine
  terms: "Apply turmeric powder" is a remedy.
\<close>

theorem numbered_line_remedy_terms_missed:
  "\<not> any_in action_verbs ''1. Add turmeric powder''
   \<and> re_match False numbered_pattern ''1. Add turmeric powder'' = Some []
   \<and> length ''1. Add turmeric powder'' > 10
   \<and> any_in remedy_terms ''1. Add turmeric powder''
   \<and> recommended_actions (parse_image_analysis ''1. Add turmeric powder'') =
       [''1. Add turmeric powder'']
   \<and> local_remedies (parse_image_analysis ''1. Add turmeric powder'') = []
   \<and> local_remedies (parse_image_analysis ''Apply turmeric powder'') =
       [''Apply turmeric powder'']"
  by code_simp

text \<open>
  C10. The result of disease extraction is never "Powdery Mildew" nor "Downy Mildew":
  a text that contains "powdery mildew" or "downy mildew" contains "mildew", which
  stands at index 3 of the list, before both (indices 9 and 10), so the scan stops there.
\<close>

theorem mildew_variants_unreachable:
  "disease_detected (parse_image_analysis response_text) \<noteq> Some ''Powdery Mildew''
   \<and> disease_detected (parse_image_analysis response_text) \<noteq> Some ''Downy Mildew''
   \<and> (py_in ''powdery mildew'' s \<longrightarrow> py_in ''mildew'' s)
   \<and> (py_in ''downy mildew'' s \<longrightarrow> py_in ''mildew'' s)
   \<and> diseases ! 3 = ''mildew''
   \<and> diseases ! 9 = ''powdery mildew''
   \<and> diseases ! 10 = ''downy mildew''"
proof -
  let ?low = "lower response_text"
  have found: "disease_detected (parse_image_analysis response_text) =
      map_option title (find (\<lambda>d. py_in d ?low) diseases)"
    by (simp add: parse_image_analysis_shape)
  have p: "map_option title (find (\<lambda>d. py_in d ?low) diseases) \<noteq> Some ''Powdery Mildew''"
    using py_in_mildew(1)[of ?low] by (auto simp add: diseases_def title_eval)
  have d: "map_option title (find (\<lambda>d. py_in d ?low) diseases) \<noteq> Some ''Downy Mildew''"
    using py_in_mildew(2)[of ?low] by (auto simp add: diseases_def title_eval)
  have idx: "diseases ! 3 = ''mildew''" "diseases ! 9 = ''powdery mildew''"
    "diseases ! 10 = ''downy mildew''"
    by (simp_all add: diseases_def)
  from found p d py_in_mildew[of s] idx show ?thesis by simp
qed

theorem mildew_variants_unreachable_witness:
  "py_in ''powdery mildew'' ''white powdery mildew'' \<and> py_in ''mildew'' ''white powdery mildew''
   \<and> py_in ''downy mildew'' ''downy mildew seen'' \<and> py_in ''mildew'' ''downy mildew seen''
   \<and> disease_detected (parse_image_analysis ''White Powdery Mildew'') = Some ''Mildew''"
proof -
  have a: "py_in ''powdery mildew'' ''white powdery mildew''" by simp
  have b: "py_in ''downy mildew'' ''downy mildew seen''" by simp
  have c: "disease_detected (parse_image_analysis ''White Powdery Mildew'') = Some ''Mildew''"
    by (simp add: parse_image_analysis_shape diseases_def title_eval lower_def)
  from mildew_variants_unreachable [of "''White Powdery Mildew''" "''white powdery mildew''"] a
  have a': "py_in ''mildew'' ''white powdery mildew''" by blast
  from mildew_variants_unreachable [of "''White Powdery Mildew''" "''downy mildew seen''"] b
  have b': "py_in ''mildew'' ''downy mildew seen''" by blast
  from a a' b b' c show ?thesis by simp
qed

section \<open>Properties of the conversation context\<close>

text \<open>
  C7. For every message, history and language code the list sent to the model is: the
  system message, then one message per entry of the last five entries of the history in
  their order (of seven entries the last five), then one user message with the input
  message, which carries the Kannada directive as a prefix when the language is "kn"
  and is the input as it is when the language is "en" or absent.
\<close>

theorem context_system_window_input:
  "fst (build_messages self message conversation_history language) =
     SystemMessage (system_prompt self)
     # map history_message (last_five conversation_history)
     @ [HumanMessage (if language = Some ''kn''
                      then ''[Please respond in Kannada language] '' @ message
                      else message)]
   \<and> length (fst (build_messages self message conversation_history language)) =
       1 + min 5 (length conversation_history) + 1
   \<and> last_five conversation_history =
       drop (length conversation_history - 5) conversation_history
   \<and> last_five [h1, h2, h3, h4, h5, h6, h7] = [h3, h4, h5, h6, h7]
   \<and> last (fst (build_messages self message conversation_history (Some ''kn''))) =
       HumanMessage (''[Please respond in Kannada language] '' @ message)
   \<and> last (fst (build_messages self message conversation_history (Some ''en''))) =
       HumanMessage message
   \<and> last (fst (build_messages self message conversation_history None)) =
       HumanMessage message
   \<and> process_chat_message self ainvoke message conversation_history language =
       (case ainvoke (fst (build_messages self message conversation_history language)) of
          Inl e \<Rightarrow> Inl e
        | Inr response_content \<Rightarrow>
            Inr \<lparr>response = response_content, conversation_id = ''default'',
                 suggested_actions =
                   get_suggested_actions
                     (snd (build_messages self message conversation_history language))\<rparr>)"
proof -
  have len: "length (last_five conversation_history) = min 5 (length conversation_history)"
    by (simp add: last_five_def)
  have seven: "last_five [h1, h2, h3, h4, h5, h6, h7] = [h3, h4, h5, h6, h7]"
    by (simp add: last_five_def)
  have call: "process_chat_message self ainvoke message conversation_history language =
       (case ainvoke (fst (build_messages self message conversation_history language)) of
          Inl e \<Rightarrow> Inl e
        | Inr response_content \<Rightarrow>
            Inr \<lparr>response = response_content, conversation_id = ''default'',
                 suggested_actions =
                   get_suggested_actions
                     (snd (build_messages self message conversation_history language))\<rparr>)"
    by (simp add: process_chat_message_def case_prod_beta)
  show ?thesis
    by (simp add: build_messages_shape len seven call) (simp add: last_five_def)
qed

text \<open>
  C8. Every history entry of the window whose role is "user" becomes a user message,
  and every other entry, whatever its role, becomes an assistant message, with the content
  of the entry: the roles "user" and "assistant" are carried unchanged, any other role
  is turned into "assistant". The history is an argument that is only read.
\<close>

theorem history_role_user_or_assistant:
  "(\<forall>i<length (last_five conversation_history).
      fst (build_messages self message conversation_history language) ! Suc i =
        (if role (last_five conversation_history ! i) = ''user''
         then HumanMessage (content (last_five conversation_history ! i))
         else AIMessage (content (last_five conversation_history ! i)))
      \<and> message_role (fst (build_messages self message conversation_history language) ! Suc i) =
        (if role (last_five conversation_history ! i) = ''user''
         then ''user'' else ''assistant''))
   \<and> (\<forall>i<length (last_five conversation_history).
        role (last_five conversation_history ! i) \<in> {''user'', ''assistant''} \<longrightarrow>
        message_role (fst (build_messages self message conversation_history language) ! Suc i) =
          role (last_five conversation_history ! i))"
proof -
  let ?w = "last_five conversation_history"
  let ?ms = "fst (build_messages self message conversation_history language)"
  have nth: "?ms ! Suc i = history_message (?w ! i)" if "i < length ?w" for i
    using that by (simp add: build_messages_shape nth_append)
  have rl: "message_role (history_message e) =
      (if role e = ''user'' then ''user'' else ''assistant'')" for e
    by (simp add: history_message_def message_role_def)
  show ?thesis
    using nth rl by (auto simp: history_message_def)
qed

theorem history_role_user_or_assistant_witness:
  "fst (build_messages \<lparr>system_prompt = ''You are AgriMitra'', image_analysis_prompt = []\<rparr>
          ''How much water?''
          [\<lparr>role = ''user'', content = ''Hello'', timestamp = None\<rparr>,
           \<lparr>role = ''tool'', content = ''lookup'', timestamp = None\<rparr>] (Some ''en'')) ! Suc 1 =
     AIMessage ''lookup''
   \<and> message_role
       (fst (build_messages \<lparr>system_prompt = ''You are AgriMitra'', image_analysis_prompt = []\<rparr>
          ''How much water?''
          [\<lparr>role = ''user'', content = ''Hello'', timestamp = None\<rparr>,
           \<lparr>role = ''tool'', content = ''lookup'', timestamp = None\<rparr>] (Some ''en'')) ! Suc 0) =
     ''user''"
proof -
  let ?h = "[\<lparr>role = ''user'', content = ''Hello'', timestamp = None\<rparr>,
           \<lparr>role = ''tool'', content = ''lookup'', timestamp = None\<rparr>]"
  have w: "last_five ?h = ?h" by (simp add: last_five_def)
  have l0: "0 < length (last_five ?h)" and l1: "1 < length (last_five ?h)"
    by (simp_all add: w)
  note all = history_role_user_or_assistant
    [of ?h "\<lparr>system_prompt = ''You are AgriMitra'', image_analysis_prompt = []\<rparr>"
       "''How much water?''" "Some ''en''", THEN conjunct1, rule_format]
  from all [of 1, OF l1] all [of 0, OF l0]
  show ?thesis unfolding w by (simp add: message_role_def)
qed

text \<open>
  C8, as the specification words it (every entry keeps its original role, a malformed
  one included), fails: an entry with the role "system" becomes an assistant message.
\<close>

theorem history_role_not_preserved:
  "fst (build_messages \<lparr>system_prompt = ''You are AgriMitra'', image_analysis_prompt = []\<rparr>
          ''How much water?''
          [\<lparr>role = ''system'', content = ''note'', timestamp = None\<rparr>] (Some ''en'')) ! 1 =
     AIMessage ''note''
   \<and> \<not> (\<forall>self message conversation_history language.
          \<forall>i<length (last_five conversation_history).
            message_role (fst (build_messages self message conversation_history language)
                            ! Suc i) =
            role (last_five conversation_history ! i))"
proof -
  let ?self = "\<lparr>system_prompt = ''You are AgriMitra'', image_analysis_prompt = []\<rparr>"
  let ?h = "[\<lparr>role = ''system'', content = ''note'', timestamp = None\<rparr>]"
  have v: "fst (build_messages ?self ''How much water?'' ?h (Some ''en'')) ! 1 =
     AIMessage ''note''"
    by (simp add: build_messages_shape last_five_def history_message_def)
  have "\<not> (\<forall>self message conversation_history language.
          \<forall>i<length (last_five conversation_history).
            message_role (fst (build_messages self message conversation_history language)
                            ! Suc i) =
            role (last_five conversation_history ! i))"
  proof
    assume all: "\<forall>self message conversation_history language.
          \<forall>i<length (last_five conversation_history).
            message_role (fst (build_messages self message conversation_history language)
                            ! Suc i) =
            role (last_five conversation_history ! i)"
    have "0 < length (last_five ?h)" by (simp add: last_five_def)
    with all have
      "message_role (fst (build_messages ?self ''How much water?'' ?h (Some ''en'')) ! Suc 0) =
        role (last_five ?h ! 0)" by blast
    then show False
      by (simp add: build_messages_shape last_five_def history_message_def message_role_def)
  qed
  with v show ?thesis by simp
qed

section \<open>Properties of the suggestion heuristic\<close>

text \<open>
  C9. The suggestion heuristic is a function of the message alone: it lower-cases the
  message, tests the disease/pest, market, scheme/subsidy and weather keyword sets in
  this order, and returns the fixed three suggestions of the first set with a keyword
  occurring in the message, or the three generic suggestions when no set has one. The
  result always has three entries, and the message "My tomato leaves have yellow spots"
  gets the three disease-related suggestions in their fixed order.
\<close>

theorem get_suggested_actions_priority:
  "get_suggested_actions message =
     (if mentions disease_pest_terms message
      then [''Upload an image of the affected plant'',
            ''Check market prices for your crop'',
            ''Look for organic treatment options'']
      else if mentions market_terms message
      then [''Check current market prices'',
            ''Find nearby mandis'',
            ''Look for government schemes'']
      else if mentions scheme_terms message
      then [''Search government schemes'',
            ''Check eligibility criteria'',
            ''Find application procedures'']
      else if mentions weather_terms message
      then [''Check weather forecasts'',
            ''Look for drought-resistant varieties'',
            ''Explore irrigation subsidies'']
      else [''Upload crop images for analysis'',
            ''Check market prices'',
            ''Explore government schemes''])
   \<and> length (get_suggested_actions message) = 3
   \<and> get_suggested_actions ''My tomato leaves have yellow spots'' =
       [''Upload an image of the affected plant'',
        ''Check market prices for your crop'',
        ''Look for organic treatment options'']"
proof -
  have shape: "get_suggested_actions message =
     (if mentions disease_pest_terms message
      then [''Upload an image of the affected plant'',
            ''Check market prices for your crop'',
            ''Look for organic treatment options'']
      else if mentions market_terms message
      then [''Check current market prices'',
            ''Find nearby mandis'',
            ''Look for government schemes'']
      else if mentions scheme_terms message
      then [''Search government schemes'',
            ''Check eligibility criteria'',
            ''Find application procedures'']
      else if mentions weather_terms message
      then [''Check weather forecasts'',
            ''Look for drought-resistant varieties'',
            ''Explore irrigation subsidies'']
      else [''Upload crop images for analysis'',
            ''Check market prices'',
            ''Explore government schemes''])"
    unfolding get_suggested_actions_def mentions_def disease_pest_terms_def
      market_terms_def scheme_terms_def weather_terms_def Let_def
    by simp
  have len: "length (get_suggested_actions message) = 3"
    unfolding shape by simp
  have example: "get_suggested_actions ''My tomato leaves have yellow spots'' =
       [''Upload an image of the affected plant'',
        ''Check market prices for your crop'',
        ''Look for organic treatment options'']"
    by code_simp
  from shape len example show ?thesis by blast
qed

end
